theory Spec2Isabelle
  imports Main
begin

section \<open>The store: objects of \<open>lifetime.hpp\<close> that live on the C++ heap\<close>

text \<open>
  \<open>Lifetime<T>\<close> is a handle onto a value shared by a group of handles. Every handle
  holds five pointers, all of them shared by the members of its group: the value
  (\<open>T*\<close>), the owner cell (\<open>Lifetime**\<close>), the mutex, the mutator cell
  (\<open>LifetimeMutator**\<close>) and the set of member handles (\<open>std::set<Lifetime*>*\<close>).
  The group's bookkeeping is what these cells hold, and the claims depend on which cell
  is written through which pointer, so the model is an explicit store: one partial map
  per kind of object, from addresses to contents. An address outside a map's domain is
  not (or no longer) allocated there.

  Addresses are natural numbers handed out by a counter \<open>brk\<close> that only grows: two
  allocations never return the same address, and an address is not reused after
  \<open>delete\<close>. The program is read single-threaded; the mutex has an address and no
  contents.
\<close>

type_synonym addr = nat

text \<open>The five data members of \<open>Lifetime\<close> (source lines 241-245).\<close>

record Lifetime =
  m_T :: addr
  m_owner :: addr
  m_mutex :: addr
  m_mutator :: addr
  m_refs :: addr

text \<open>
  The two data members of the nested class \<open>LifetimeMutator\<close> (lines 236-237), which
  the source also calls \<open>m_mutator\<close> and \<open>m_mutatorAccess\<close>.
\<close>

record LifetimeMutator =
  lm_mutator :: addr
  lm_mutatorAccess :: addr

text \<open>
  \<open>objs\<close>: the live \<open>Lifetime\<close> objects; \<open>vals\<close>: the \<open>T\<close> objects; \<open>owner_cells\<close>:
  the \<open>Lifetime*\<close> cells; \<open>mutator_cells\<close>: the \<open>LifetimeMutator*\<close> cells, where
  \<open>None\<close> is \<open>nullptr\<close>; \<open>mutators\<close>: the \<open>LifetimeMutator\<close> objects; \<open>ref_sets\<close>: the
  \<open>std::set<Lifetime*>\<close> objects.
\<close>

record 'a store =
  objs :: "addr \<rightharpoonup> Lifetime"
  vals :: "addr \<rightharpoonup> 'a"
  owner_cells :: "addr \<rightharpoonup> addr"
  mutator_cells :: "addr \<rightharpoonup> addr option"
  mutators :: "addr \<rightharpoonup> LifetimeMutator"
  ref_sets :: "addr \<rightharpoonup> addr set"
  brk :: addr

definition empty_store :: "'a store" where
  "empty_store = \<lparr>objs = Map.empty, vals = Map.empty, owner_cells = Map.empty,
     mutator_cells = Map.empty, mutators = Map.empty, ref_sets = Map.empty, brk = 0\<rparr>"

text \<open>
  What a call does: it returns a result, it throws \<open>std::runtime_error\<close> with a message,
  or its behaviour is undefined because it reads through a null pointer or touches an
  object after its \<open>delete\<close>. A throw carries the store, since the destructor writes
  before it throws.
\<close>

datatype fault = NullDeref | UseAfterFree

datatype exn = runtime_error string

datatype ('r, 'a) outcome = Returns 'r "'a store" | Throws exn "'a store" | Undefined fault

subsection \<open>Allocation\<close>

definition new_obj :: "'a store \<Rightarrow> addr \<times> 'a store" where
  "new_obj s = (brk s, s\<lparr>brk := Suc (brk s)\<rparr>)"

definition new_T :: "'a \<Rightarrow> 'a store \<Rightarrow> addr \<times> 'a store" where
  "new_T v s = (brk s, s\<lparr>vals := (vals s)(brk s \<mapsto> v), brk := Suc (brk s)\<rparr>)"

definition new_owner_cell :: "addr \<Rightarrow> 'a store \<Rightarrow> addr \<times> 'a store" where
  "new_owner_cell h s =
     (brk s, s\<lparr>owner_cells := (owner_cells s)(brk s \<mapsto> h), brk := Suc (brk s)\<rparr>)"

definition new_mutator_cell :: "addr option \<Rightarrow> 'a store \<Rightarrow> addr \<times> 'a store" where
  "new_mutator_cell c s =
     (brk s, s\<lparr>mutator_cells := (mutator_cells s)(brk s \<mapsto> c), brk := Suc (brk s)\<rparr>)"

definition new_mutex :: "'a store \<Rightarrow> addr \<times> 'a store" where
  "new_mutex s = (brk s, s\<lparr>brk := Suc (brk s)\<rparr>)"

definition new_set :: "'a store \<Rightarrow> addr \<times> 'a store" where
  "new_set s = (brk s, s\<lparr>ref_sets := (ref_sets s)(brk s \<mapsto> {}), brk := Suc (brk s)\<rparr>)"

section \<open>The constructor and the destructors\<close>

text \<open>
  Line 48-49: \<open>if(force_take_mutability && *this->m_mutator == nullptr)
  *this->m_mutator = new LifetimeMutator(this, new LifetimeMutator*{*this->m_mutator});\<close>
  The second argument is a newly allocated cell that is initialised with the
  contents of the group's mutator cell (null at this point); it is not the group's cell
  itself. The constructor of \<open>LifetimeMutator\<close> (lines 222-227) stores both arguments
  and writes its own address into that new cell. The group's cell then receives the
  address of the new \<open>LifetimeMutator\<close>.
\<close>

definition take_mutability :: "addr \<Rightarrow> addr \<Rightarrow> 'a store \<Rightarrow> fault + 'a store" where
  "take_mutability this mp s =
     (case mutator_cells s mp of
        None \<Rightarrow> Inl UseAfterFree
      | Some (Some q) \<Rightarrow> Inr s
      | Some None \<Rightarrow>
          (let (p, s1) = new_obj s;
               (c, s2) = new_mutator_cell None s1;
               s3 = s2\<lparr>mutators := (mutators s2)(p \<mapsto> \<lparr>lm_mutator = this, lm_mutatorAccess = c\<rparr>),
                       mutator_cells := (mutator_cells s2)(c \<mapsto> Some p)\<rparr>
           in Inr (s3\<lparr>mutator_cells := (mutator_cells s3)(mp \<mapsto> Some p)\<rparr>)))"

text \<open>Line 51: \<open>if(force_take_ownership && *this->m_owner != this) *this->m_owner = this;\<close>\<close>

definition take_ownership :: "addr \<Rightarrow> addr \<Rightarrow> 'a store \<Rightarrow> fault + 'a store" where
  "take_ownership this ow s =
     (case owner_cells s ow of
        None \<Rightarrow> Inl UseAfterFree
      | Some h \<Rightarrow> Inr (if h \<noteq> this then s\<lparr>owner_cells := (owner_cells s)(ow \<mapsto> this)\<rparr> else s))"

text \<open>
  Lines 47, 50, 52 and 53 share one form, \<open>(p == nullptr) ? new ... : p\<close>: the argument
  if it is not null, a new object otherwise.
\<close>

definition or_new ::
  "addr option \<Rightarrow> ('a store \<Rightarrow> addr \<times> 'a store) \<Rightarrow> 'a store \<Rightarrow> addr \<times> 'a store" where
  "or_new arg alloc s = (case arg of None \<Rightarrow> alloc s | Some p \<Rightarrow> (p, s))"

text \<open>
  The constructor (lines 44-55), run on the storage \<open>this\<close>. A null argument is \<open>None\<close>.
  The object is live once the constructor has returned.
\<close>

definition Lifetime_ctor ::
  "addr \<Rightarrow> addr \<Rightarrow> addr option \<Rightarrow> addr option \<Rightarrow> addr option \<Rightarrow> addr option \<Rightarrow> bool \<Rightarrow> bool
     \<Rightarrow> 'a store \<Rightarrow> (unit, 'a) outcome" where
  "Lifetime_ctor this child ownership mutator mut set_arg force_take_ownership
       force_take_mutability s =
     (let (mp, s1) = or_new mutator (new_mutator_cell None) s in
      case (if force_take_mutability then take_mutability this mp s1 else Inr s1) of
        Inl f \<Rightarrow> Undefined f
      | Inr s2 \<Rightarrow>
          (let (ow, s3) = or_new ownership (new_owner_cell this) s2 in
           case (if force_take_ownership then take_ownership this ow s3 else Inr s3) of
             Inl f \<Rightarrow> Undefined f
           | Inr s4 \<Rightarrow>
               (let (mx, s5) = or_new mut new_mutex s4;
                    (rs, s6) = or_new set_arg new_set s5
                in case ref_sets s6 rs of
                     None \<Rightarrow> Undefined UseAfterFree
                   | Some R \<Rightarrow>
                       Returns ()
                         (s6\<lparr>ref_sets := (ref_sets s6)(rs \<mapsto> insert this R),
                             objs := (objs s6)(this \<mapsto>
                               \<lparr>m_T = child, m_owner = ow, m_mutex = mx, m_mutator = mp,
                                m_refs = rs\<rparr>)\<rparr>))))"

text \<open>
  A \<open>Lifetime\<close> constructed into new storage; the constructor is public. The methods
  below return their new handle this way.
\<close>

definition construct ::
  "addr \<Rightarrow> addr option \<Rightarrow> addr option \<Rightarrow> addr option \<Rightarrow> addr option \<Rightarrow> bool \<Rightarrow> bool
     \<Rightarrow> 'a store \<Rightarrow> (addr, 'a) outcome" where
  "construct child ownership mutator mut set_arg fto ftm s =
     (let (this, s1) = new_obj s in
      case Lifetime_ctor this child ownership mutator mut set_arg fto ftm s1 of
        Returns u s2 \<Rightarrow> Returns this s2
      | Throws e s2 \<Rightarrow> Throws e s2
      | Undefined f \<Rightarrow> Undefined f)"

text \<open>
  The destructor of \<open>LifetimeMutator\<close> (lines 229-233) followed by the release of its
  storage: \<open>delete\<close> of the object at \<open>p\<close>. What it sets to null is the cell the object
  was constructed with, \<open>m_mutatorAccess\<close>.
\<close>

definition delete_LifetimeMutator :: "addr \<Rightarrow> 'a store \<Rightarrow> fault + 'a store" where
  "delete_LifetimeMutator p s =
     (case mutators s p of
        None \<Rightarrow> Inl UseAfterFree
      | Some M \<Rightarrow>
          (case mutator_cells s (lm_mutatorAccess M) of
             None \<Rightarrow> Inl UseAfterFree
           | Some c \<Rightarrow>
               Inr (s\<lparr>mutator_cells := (mutator_cells s)(lm_mutatorAccess M \<mapsto> None),
                      mutators := (mutators s)(p := None)\<rparr>)))"

text \<open>
  The test \<open>*this->m_mutator != nullptr && (*this->m_mutator)->m_mutator == this\<close> of
  lines 66, 118 and 134. The second operand is read only when the cell is not null, and
  it reads the \<open>LifetimeMutator\<close> the cell points to.
\<close>

definition holds_mutator :: "addr \<Rightarrow> Lifetime \<Rightarrow> 'a store \<Rightarrow> fault + bool" where
  "holds_mutator this L s =
     (case mutator_cells s (m_mutator L) of
        None \<Rightarrow> Inl UseAfterFree
      | Some None \<Rightarrow> Inr False
      | Some (Some p) \<Rightarrow>
          (case mutators s p of
             None \<Rightarrow> Inl UseAfterFree
           | Some M \<Rightarrow> Inr (lm_mutator M = this)))"

definition owner_freed :: string where
  "owner_freed = ''Owner freed but references still exist.''"

text \<open>
  Line 66: \<open>if(*this->m_mutator != nullptr && (*this->m_mutator)->m_mutator == this)
  delete *this->m_mutator;\<close>
\<close>

definition release_mutator :: "addr \<Rightarrow> Lifetime \<Rightarrow> 'a store \<Rightarrow> fault + 'a store" where
  "release_mutator this L s =
     (case mutator_cells s (m_mutator L) of
        None \<Rightarrow> Inl UseAfterFree
      | Some None \<Rightarrow> Inr s
      | Some (Some p) \<Rightarrow>
          (case mutators s p of
             None \<Rightarrow> Inl UseAfterFree
           | Some M \<Rightarrow> if lm_mutator M = this then delete_LifetimeMutator p s else Inr s))"

text \<open>
  The destructor (lines 58-98). It releases the mutator if this handle holds it, erases
  the handle from the member set, throws if the handle is the owner and the set is not
  empty, and deletes the value, the owner cell and the set when the set is empty. The
  mutator cell and the mutex are never deleted. The object is dead once its destructor
  has started, whether it returns or throws.
\<close>

definition Lifetime_dtor :: "addr \<Rightarrow> 'a store \<Rightarrow> (unit, 'a) outcome" where
  "Lifetime_dtor this s =
     (case objs s this of
        None \<Rightarrow> Undefined UseAfterFree
      | Some L \<Rightarrow>
     (case release_mutator this L s of
        Inl f \<Rightarrow> Undefined f
      | Inr s1 \<Rightarrow>
     (case ref_sets s1 (m_refs L) of
        None \<Rightarrow> Undefined UseAfterFree
      | Some R \<Rightarrow>
     (let R1 = R - {this};
          s2 = s1\<lparr>ref_sets := (ref_sets s1)(m_refs L \<mapsto> R1)\<rparr>
      in
      case owner_cells s2 (m_owner L) of
        None \<Rightarrow> Undefined UseAfterFree
      | Some h \<Rightarrow>
          if this = h \<and> R1 \<noteq> {}
          then Throws (runtime_error owner_freed) (s2\<lparr>objs := (objs s2)(this := None)\<rparr>)
          else
            (let R2 = (if this = h then {} else R1);
                 s3 = s2\<lparr>ref_sets := (ref_sets s2)(m_refs L \<mapsto> R2)\<rparr>
             in
             if R2 = {}
             then (case vals s3 (m_T L) of
                     None \<Rightarrow> Undefined UseAfterFree
                   | Some v \<Rightarrow>
                       Returns ()
                         (s3\<lparr>vals := (vals s3)(m_T L := None),
                             owner_cells := (owner_cells s3)(m_owner L := None),
                             ref_sets := (ref_sets s3)(m_refs L := None),
                             objs := (objs s3)(this := None)\<rparr>))
             else Returns () (s3\<lparr>objs := (objs s3)(this := None)\<rparr>))))))"

section \<open>The member functions\<close>

text \<open>
  A member function called on a handle that is not live is undefined behaviour. The
  assertions that open the member functions compare the handle's own pointers with
  null; a live handle's pointers are never null, so they are not branches of the model.
\<close>

text \<open>The comparison \<open>this == *this->m_owner\<close> of lines 78, 119, 135, 180 and 214.\<close>

definition owns :: "addr \<Rightarrow> Lifetime \<Rightarrow> 'a store \<Rightarrow> fault + bool" where
  "owns this L s =
     (case owner_cells s (m_owner L) of
        None \<Rightarrow> Inl UseAfterFree
      | Some h \<Rightarrow> Inr (this = h))"

text \<open>
  Lines 118-119 and 134-135: \<open>if(<holds the mutator>); else if(this != *this->m_owner)
  throw ...\<close>. \<open>Inr True\<close>: no throw.
\<close>

definition may_write :: "addr \<Rightarrow> Lifetime \<Rightarrow> 'a store \<Rightarrow> fault + bool" where
  "may_write this L s =
     (case holds_mutator this L s of
        Inl f \<Rightarrow> Inl f
      | Inr True \<Rightarrow> Inr True
      | Inr False \<Rightarrow> owns this L s)"

definition not_writable_get :: string where
  "not_writable_get = ''Lifetime tried to get a mutable reference without maintaining object ownership or mutability.''"

definition not_writable_set :: string where
  "not_writable_set = ''Lifetime tried to write a new value without maintaining object ownership or mutability.''"

definition already_mutable :: string where
  "already_mutable = ''Tried to borrow mutable access from a Lifetime for which mutable access already exists.''"

definition not_owner :: string where
  "not_owner = ''Lifetime tried to transfer ownership without maintaining object ownership.''"

text \<open>\<open>from\<close> (lines 105-108).\<close>

definition from_value :: "'a \<Rightarrow> 'a store \<Rightarrow> (addr, 'a) outcome" where
  "from_value v s =
     (let (child, s1) = new_T v s in construct child None None None None False False s1)"

text \<open>\<open>get_mutable\<close> (lines 111-124); the reference it returns is the address of the value.\<close>

definition get_mutable :: "addr \<Rightarrow> 'a store \<Rightarrow> (addr, 'a) outcome" where
  "get_mutable this s =
     (case objs s this of
        None \<Rightarrow> Undefined UseAfterFree
      | Some L \<Rightarrow>
          (case may_write this L s of
             Inl f \<Rightarrow> Undefined f
           | Inr False \<Rightarrow> Throws (runtime_error not_writable_get) s
           | Inr True \<Rightarrow> Returns (m_T L) s))"

text \<open>\<open>set\<close> (lines 127-140).\<close>

definition set_value :: "addr \<Rightarrow> 'a \<Rightarrow> 'a store \<Rightarrow> (unit, 'a) outcome" where
  "set_value this v s =
     (case objs s this of
        None \<Rightarrow> Undefined UseAfterFree
      | Some L \<Rightarrow>
          (case may_write this L s of
             Inl f \<Rightarrow> Undefined f
           | Inr False \<Rightarrow> Throws (runtime_error not_writable_set) s
           | Inr True \<Rightarrow>
               (case vals s (m_T L) of
                  None \<Rightarrow> Undefined UseAfterFree
                | Some old \<Rightarrow> Returns () (s\<lparr>vals := (vals s)(m_T L \<mapsto> v)\<rparr>))))"

text \<open>\<open>get\<close> (lines 143-146); the result is the value read through the returned reference.\<close>

definition get :: "addr \<Rightarrow> 'a store \<Rightarrow> ('a, 'a) outcome" where
  "get this s =
     (case objs s this of
        None \<Rightarrow> Undefined UseAfterFree
      | Some L \<Rightarrow>
          (case vals s (m_T L) of
             None \<Rightarrow> Undefined UseAfterFree
           | Some v \<Rightarrow> Returns v s))"

text \<open>\<open>borrow\<close> (lines 149-152).\<close>

definition borrow :: "addr \<Rightarrow> 'a store \<Rightarrow> (addr, 'a) outcome" where
  "borrow this s =
     (case objs s this of
        None \<Rightarrow> Undefined UseAfterFree
      | Some L \<Rightarrow>
          construct (m_T L) (Some (m_owner L)) (Some (m_mutator L)) (Some (m_mutex L))
            (Some (m_refs L)) False False s)"

text \<open>\<open>borrow_mutable\<close> (lines 155-162).\<close>

definition borrow_mutable :: "addr \<Rightarrow> 'a store \<Rightarrow> (addr, 'a) outcome" where
  "borrow_mutable this s =
     (case objs s this of
        None \<Rightarrow> Undefined UseAfterFree
      | Some L \<Rightarrow>
          (case mutator_cells s (m_mutator L) of
             None \<Rightarrow> Undefined UseAfterFree
           | Some (Some p) \<Rightarrow> Throws (runtime_error already_mutable) s
           | Some None \<Rightarrow>
               construct (m_T L) (Some (m_owner L)) (Some (m_mutator L)) (Some (m_mutex L))
                 (Some (m_refs L)) False True s))"

text \<open>\<open>clone\<close> (lines 165-169).\<close>

definition clone :: "addr \<Rightarrow> 'a store \<Rightarrow> (addr, 'a) outcome" where
  "clone this s =
     (case objs s this of
        None \<Rightarrow> Undefined UseAfterFree
      | Some L \<Rightarrow>
          (case vals s (m_T L) of
             None \<Rightarrow> Undefined UseAfterFree
           | Some v \<Rightarrow> from_value v s))"

text \<open>
  \<open>is_mutator\<close> (lines 172-175): \<open>return this->m_mutator != nullptr &&
  (*this->m_mutator)->m_mutator == this;\<close>. The first operand tests the handle's pointer
  to the cell, which is never null, so the second operand is always evaluated: it reads
  the member \<open>m_mutator\<close> of the object the cell points to.
\<close>

definition is_mutator :: "addr \<Rightarrow> 'a store \<Rightarrow> (bool, 'a) outcome" where
  "is_mutator this s =
     (case objs s this of
        None \<Rightarrow> Undefined UseAfterFree
      | Some L \<Rightarrow>
          (case mutator_cells s (m_mutator L) of
             None \<Rightarrow> Undefined UseAfterFree
           | Some None \<Rightarrow> Undefined NullDeref
           | Some (Some p) \<Rightarrow>
               (case mutators s p of
                  None \<Rightarrow> Undefined UseAfterFree
                | Some M \<Rightarrow> Returns (lm_mutator M = this) s)))"

text \<open>\<open>is_owner\<close> (lines 178-181).\<close>

definition is_owner :: "addr \<Rightarrow> 'a store \<Rightarrow> (bool, 'a) outcome" where
  "is_owner this s =
     (case objs s this of
        None \<Rightarrow> Undefined UseAfterFree
      | Some L \<Rightarrow>
          (case owns this L s of
             Inl f \<Rightarrow> Undefined f
           | Inr b \<Rightarrow> Returns b s))"

text \<open>
  \<open>move()\<close> (lines 207-216). The other overload, \<open>move(Lifetime&)\<close> (lines 184-204), is
  not well-typed C++: it compares \<open>this\<close> with the pointer to the owner cell, calls
  \<open>contains\<close> on a pointer, applies \<open>->\<close> to a pointer to a pointer and assigns \<open>false\<close>
  and \<open>true\<close> to the pointer \<open>m_owner\<close>. As a member of a class template it is only
  checked when it is called, so the header compiles, and no program that calls it does.
  It has no behaviour to embed.
\<close>

definition move :: "addr \<Rightarrow> 'a store \<Rightarrow> (addr, 'a) outcome" where
  "move this s =
     (case objs s this of
        None \<Rightarrow> Undefined UseAfterFree
      | Some L \<Rightarrow>
          (case owns this L s of
             Inl f \<Rightarrow> Undefined f
           | Inr False \<Rightarrow> Throws (runtime_error not_owner) s
           | Inr True \<Rightarrow>
               construct (m_T L) (Some (m_owner L)) (Some (m_mutator L)) (Some (m_mutex L))
                 (Some (m_refs L)) True False s))"

section \<open>Programs: sequences of calls\<close>

text \<open>
  A client program is a sequence of calls on handles. A thrown exception is caught and
  the program goes on; the messages thrown are collected. Undefined behaviour ends the
  run without a store.
\<close>

datatype 'a call =
    From 'a
  | Get addr
  | GetMutable addr
  | Set addr 'a
  | Borrow addr
  | BorrowMutable addr
  | Clone addr
  | IsMutator addr
  | IsOwner addr
  | Move addr
  | Destroy addr

definition forget :: "('r, 'a) outcome \<Rightarrow> (unit, 'a) outcome" where
  "forget r = (case r of Returns x s \<Rightarrow> Returns () s | Throws e s \<Rightarrow> Throws e s
                       | Undefined f \<Rightarrow> Undefined f)"

fun exec :: "'a call \<Rightarrow> 'a store \<Rightarrow> (unit, 'a) outcome" where
  "exec (From v) s = forget (from_value v s)"
| "exec (Get h) s = forget (get h s)"
| "exec (GetMutable h) s = forget (get_mutable h s)"
| "exec (Set h v) s = set_value h v s"
| "exec (Borrow h) s = forget (borrow h s)"
| "exec (BorrowMutable h) s = forget (borrow_mutable h s)"
| "exec (Clone h) s = forget (clone h s)"
| "exec (IsMutator h) s = forget (is_mutator h s)"
| "exec (IsOwner h) s = forget (is_owner h s)"
| "exec (Move h) s = forget (move h s)"
| "exec (Destroy h) s = Lifetime_dtor h s"

fun run :: "'a call list \<Rightarrow> 'a store \<Rightarrow> (exn list \<times> 'a store) option" where
  "run [] s = Some ([], s)"
| "run (c # cs) s =
     (case exec c s of
        Returns u s' \<Rightarrow> run cs s'
      | Throws e s' \<Rightarrow> (case run cs s' of None \<Rightarrow> None | Some (es, s'') \<Rightarrow> Some (e # es, s''))
      | Undefined f \<Rightarrow> None)"

section \<open>Well-formed stores\<close>

text \<open>
  The shape every store built by the member functions has. \<open>bounded\<close>: what a live
  handle or a mutator cell points to was allocated below \<open>brk\<close>. \<open>grouped\<close>: the cells of
  a live handle are allocated, and its member set holds exactly the live handles with
  the same five pointers. \<open>separate\<close>: two live handles that share one pointer share all
  five. \<open>mutators_ok\<close>: the cell a \<open>LifetimeMutator\<close> was constructed with is allocated;
  and when a group's mutator cell points to a \<open>LifetimeMutator\<close> that is still
  allocated, the handle recorded in it is a live member of the group. Nothing is said
  of a mutator cell that points to a deleted \<open>LifetimeMutator\<close>.
\<close>

definition bounded :: "'a store \<Rightarrow> bool" where
  "bounded s \<longleftrightarrow>
     (\<forall>h L. objs s h = Some L \<longrightarrow>
        h < brk s \<and> m_T L < brk s \<and> m_owner L < brk s \<and> m_mutator L < brk s \<and> m_refs L < brk s) \<and>
     (\<forall>c p. mutator_cells s c = Some (Some p) \<longrightarrow> p < brk s)"

definition grouped :: "'a store \<Rightarrow> bool" where
  "grouped s \<longleftrightarrow>
     (\<forall>h L. objs s h = Some L \<longrightarrow>
        m_T L \<in> dom (vals s) \<and> m_owner L \<in> dom (owner_cells s) \<and>
        m_mutator L \<in> dom (mutator_cells s) \<and>
        ref_sets s (m_refs L) = Some {h'. objs s h' = Some L})"

definition separate :: "'a store \<Rightarrow> bool" where
  "separate s \<longleftrightarrow>
     (\<forall>h L h' L'. objs s h = Some L \<and> objs s h' = Some L' \<and>
        (m_T L = m_T L' \<or> m_owner L = m_owner L' \<or> m_mutator L = m_mutator L' \<or>
         m_refs L = m_refs L') \<longrightarrow> L = L')"

definition mutators_ok :: "'a store \<Rightarrow> bool" where
  "mutators_ok s \<longleftrightarrow>
     (\<forall>p M. mutators s p = Some M \<longrightarrow> lm_mutatorAccess M \<in> dom (mutator_cells s)) \<and>
     (\<forall>h L p M. objs s h = Some L \<and> mutator_cells s (m_mutator L) = Some (Some p) \<and>
        mutators s p = Some M \<longrightarrow> objs s (lm_mutator M) = Some L)"

definition wf :: "'a store \<Rightarrow> bool" where
  "wf s \<longleftrightarrow> bounded s \<and> grouped s \<and> separate s \<and> mutators_ok s"

definition owners_ok :: "'a store \<Rightarrow> bool" where
  "owners_ok s \<longleftrightarrow>
     (\<forall>h L w. objs s h = Some L \<and> owner_cells s (m_owner L) = Some w \<longrightarrow> objs s w = Some L)"

definition returns_then :: "('r, 'a) outcome \<Rightarrow> ('r \<Rightarrow> 'a store \<Rightarrow> bool) \<Rightarrow> bool" where
  "returns_then r k = (case r of Returns x s \<Rightarrow> k x s | Throws e s \<Rightarrow> False | Undefined f \<Rightarrow> False)"

definition store_after :: "'a call list \<Rightarrow> 'a store" where
  "store_after cs = (case run cs empty_store of Some (es, s) \<Rightarrow> s | None \<Rightarrow> empty_store)"

section \<open>Basic facts\<close>

lemmas alloc_defs = or_new_def new_obj_def new_T_def new_owner_cell_def new_mutator_cell_def new_mutex_def new_set_def

lemma Lifetime_eta [simp]:
  "\<lparr>m_T = m_T L, m_owner = m_owner L, m_mutex = m_mutex L, m_mutator = m_mutator L, m_refs = m_refs L\<rparr> = L"
  by (cases L) simp

lemma Lifetime_ctor_not_Throws:
  "Lifetime_ctor this child ow mu mx rs fto ftm s \<noteq> Throws e s'"
  by (simp add: Lifetime_ctor_def Let_def split: prod.split sum.split option.split)

lemma construct_not_Throws: "construct child ow mu mx rs fto ftm s \<noteq> Throws e s'"
proof -
  obtain this s1 where n: "new_obj s = (this, s1)" by (cases "new_obj s")
  show ?thesis
    using Lifetime_ctor_not_Throws[of this child ow mu mx rs fto ftm s1]
    by (cases "Lifetime_ctor this child ow mu mx rs fto ftm s1") (simp_all add: construct_def n)
qed

lemma borrow_eq:
  assumes "objs s h = Some L" "ref_sets s (m_refs L) = Some R"
  shows "borrow h s = Returns (brk s)
           (s\<lparr>objs := (objs s)(brk s \<mapsto> L), ref_sets := (ref_sets s)(m_refs L \<mapsto> insert (brk s) R),
              brk := Suc (brk s)\<rparr>)"
  using assms
  by (simp add: borrow_def construct_def Lifetime_ctor_def alloc_defs Let_def)

lemma move_eq:
  assumes "objs s h = Some L" "ref_sets s (m_refs L) = Some R" "owner_cells s (m_owner L) = Some h"
     "h < brk s"
  shows "move h s = Returns (brk s)
           (s\<lparr>objs := (objs s)(brk s \<mapsto> L), owner_cells := (owner_cells s)(m_owner L \<mapsto> brk s),
              ref_sets := (ref_sets s)(m_refs L \<mapsto> insert (brk s) R),
              brk := Suc (brk s)\<rparr>)"
  using assms
  by (simp add: move_def owns_def construct_def Lifetime_ctor_def alloc_defs take_ownership_def Let_def)

lemma borrow_mutable_eq:
  assumes "objs s h = Some L" "ref_sets s (m_refs L) = Some R" "mutator_cells s (m_mutator L) = Some None"
  shows "borrow_mutable h s = Returns (brk s)
           (s\<lparr>objs := (objs s)(brk s \<mapsto> L),
              mutator_cells := (mutator_cells s)(Suc (Suc (brk s)) \<mapsto> Some (Suc (brk s)), m_mutator L \<mapsto> Some (Suc (brk s))),
              mutators := (mutators s)(Suc (brk s) \<mapsto> \<lparr>lm_mutator = brk s, lm_mutatorAccess = Suc (Suc (brk s))\<rparr>),
              ref_sets := (ref_sets s)(m_refs L \<mapsto> insert (brk s) R),
              brk := Suc (Suc (Suc (brk s)))\<rparr>)"
  using assms
  by (simp add: borrow_mutable_def construct_def Lifetime_ctor_def alloc_defs take_mutability_def Let_def)

lemma from_value_eq:
  "from_value v s = Returns (Suc (brk s))
           (s\<lparr>objs := (objs s)(Suc (brk s) \<mapsto> \<lparr>m_T = brk s, m_owner = brk s + 3, m_mutex = brk s + 4, m_mutator = brk s + 2, m_refs = brk s + 5\<rparr>),
              vals := (vals s)(brk s \<mapsto> v),
              owner_cells := (owner_cells s)(brk s + 3 \<mapsto> Suc (brk s)),
              mutator_cells := (mutator_cells s)(brk s + 2 \<mapsto> None),
              ref_sets := (ref_sets s)(brk s + 5 \<mapsto> {Suc (brk s)}),
              brk := brk s + 6\<rparr>)"
  by (simp add: from_value_def construct_def Lifetime_ctor_def alloc_defs Let_def numeral_eq_Suc)

lemma wf_empty: "wf empty_store" "owners_ok empty_store"
  by (simp_all add: wf_def bounded_def grouped_def separate_def mutators_ok_def owners_ok_def empty_store_def)

lemma wf_bounds:
  "wf s \<Longrightarrow> objs s h = Some L \<Longrightarrow>
     h < brk s \<and> m_T L < brk s \<and> m_owner L < brk s \<and> m_mutator L < brk s \<and> m_refs L < brk s"
  unfolding wf_def bounded_def by blast

lemma wf_cell_bound: "wf s \<Longrightarrow> mutator_cells s c = Some (Some p) \<Longrightarrow> p < brk s"
  unfolding wf_def bounded_def by blast

lemma wf_fresh: "wf s \<Longrightarrow> brk s \<le> h \<Longrightarrow> objs s h = None"
  using wf_bounds[of s h] by (cases "objs s h") auto

lemma wf_refs: "wf s \<Longrightarrow> objs s h = Some L \<Longrightarrow> ref_sets s (m_refs L) = Some {h'. objs s h' = Some L}"
  unfolding wf_def grouped_def by blast

lemma wf_live:
  "wf s \<Longrightarrow> objs s h = Some L \<Longrightarrow>
     (\<exists>v. vals s (m_T L) = Some v) \<and> (\<exists>w. owner_cells s (m_owner L) = Some w) \<and>
     (\<exists>c. mutator_cells s (m_mutator L) = Some c)"
  unfolding wf_def grouped_def by blast

lemma wf_separate:
  "wf s \<Longrightarrow> objs s h = Some L \<Longrightarrow> objs s h' = Some L' \<Longrightarrow>
     m_T L = m_T L' \<or> m_owner L = m_owner L' \<or> m_mutator L = m_mutator L' \<or> m_refs L = m_refs L'
     \<Longrightarrow> L = L'"
  unfolding wf_def separate_def by blast

lemma wf_access: "wf s \<Longrightarrow> mutators s p = Some M \<Longrightarrow> \<exists>c. mutator_cells s (lm_mutatorAccess M) = Some c"
  unfolding wf_def mutators_ok_def by blast

lemma wf_mutator:
  "wf s \<Longrightarrow> objs s h = Some L \<Longrightarrow> mutator_cells s (m_mutator L) = Some (Some p) \<Longrightarrow>
     mutators s p = Some M \<Longrightarrow> objs s (lm_mutator M) = Some L"
  unfolding wf_def mutators_ok_def by blast

lemma wfI:
  assumes "\<And>h L. objs s h = Some L \<Longrightarrow>
        h < brk s \<and> m_T L < brk s \<and> m_owner L < brk s \<and> m_mutator L < brk s \<and> m_refs L < brk s"
    and "\<And>c p. mutator_cells s c = Some (Some p) \<Longrightarrow> p < brk s"
    and "\<And>h L. objs s h = Some L \<Longrightarrow>
        (\<exists>v. vals s (m_T L) = Some v) \<and> (\<exists>w. owner_cells s (m_owner L) = Some w) \<and>
        (\<exists>c. mutator_cells s (m_mutator L) = Some c) \<and>
        ref_sets s (m_refs L) = Some {h'. objs s h' = Some L}"
    and "\<And>h L h' L'. objs s h = Some L \<Longrightarrow> objs s h' = Some L' \<Longrightarrow>
        m_T L = m_T L' \<or> m_owner L = m_owner L' \<or> m_mutator L = m_mutator L' \<or>
         m_refs L = m_refs L' \<Longrightarrow> L = L'"
    and "\<And>p M. mutators s p = Some M \<Longrightarrow> \<exists>c. mutator_cells s (lm_mutatorAccess M) = Some c"
    and "\<And>h L p M. objs s h = Some L \<Longrightarrow> mutator_cells s (m_mutator L) = Some (Some p) \<Longrightarrow>
        mutators s p = Some M \<Longrightarrow> objs s (lm_mutator M) = Some L"
  shows "wf s"
  unfolding wf_def bounded_def grouped_def separate_def mutators_ok_def
  using assms by (intro conjI allI impI) (blast+)

lemma wf_join:
  assumes wf: "wf s" and L: "objs s h = Some L"
    and f: "objs s' = (objs s)(brk s \<mapsto> L)" "vals s' = vals s"
      "dom (owner_cells s') = dom (owner_cells s)" "mutator_cells s' = mutator_cells s"
      "mutators s' = mutators s"
      "ref_sets s' = (ref_sets s)(m_refs L \<mapsto> insert (brk s) {h'. objs s h' = Some L})"
      "brk s' = Suc (brk s)"
  shows "wf s'"
proof -
  have fr: "objs s (brk s) = None" using wf by (simp add: wf_fresh)
  have old: "\<exists>h0. objs s h0 = Some L1" if "objs s' h1 = Some L1" for h1 L1
    using that L by (auto simp: f split: if_splits)
  have mem: "{h'. objs s' h' = Some L1} =
       (if L1 = L then insert (brk s) {h'. objs s h' = Some L} else {h'. objs s h' = Some L1})" for L1
    using fr by (auto simp: f)
  show ?thesis
  proof (rule wfI)
    fix h1 L1 assume a: "objs s' h1 = Some L1"
    from old[OF a] obtain h0 where h0: "objs s h0 = Some L1" ..
    have "h1 \<le> brk s"
    proof (cases "h1 = brk s")
      case False
      with a have "objs s h1 = Some L1" by (simp add: f)
      from wf_bounds[OF wf this] show ?thesis by simp
    qed simp
    then show "h1 < brk s' \<and> m_T L1 < brk s' \<and> m_owner L1 < brk s' \<and> m_mutator L1 < brk s' \<and> m_refs L1 < brk s'"
      using wf_bounds[OF wf h0] by (simp add: f)
    have "L1 = L" if "m_refs L1 = m_refs L"
      using wf_separate[OF wf h0 L] that by simp
    moreover have "ref_sets s (m_refs L1) = Some {h'. objs s h' = Some L1}"
      by (rule wf_refs[OF wf h0])
    ultimately have "ref_sets s' (m_refs L1) = Some {h'. objs s' h' = Some L1}"
      by (auto simp: f(6) mem)
    moreover have "\<exists>w. owner_cells s' (m_owner L1) = Some w"
      using wf_live[OF wf h0] f(3) by (metis domD domI)
    ultimately show "(\<exists>v. vals s' (m_T L1) = Some v) \<and> (\<exists>w. owner_cells s' (m_owner L1) = Some w) \<and>
        (\<exists>c. mutator_cells s' (m_mutator L1) = Some c) \<and>
        ref_sets s' (m_refs L1) = Some {h'. objs s' h' = Some L1}"
      using wf_live[OF wf h0] by (simp add: f)
  next
    fix c p assume "mutator_cells s' c = Some (Some p)"
    then show "p < brk s'" using wf_cell_bound[OF wf, of c p] by (simp add: f)
  next
    fix h1 L1 h2 L2
    assume a: "objs s' h1 = Some L1" "objs s' h2 = Some L2"
      "m_T L1 = m_T L2 \<or> m_owner L1 = m_owner L2 \<or> m_mutator L1 = m_mutator L2 \<or> m_refs L1 = m_refs L2"
    from old[OF a(1)] old[OF a(2)] obtain h1' h2' where "objs s h1' = Some L1" "objs s h2' = Some L2"
      by blast
    then show "L1 = L2" using wf_separate[OF wf _ _ a(3)] by blast
  next
    fix p M assume "mutators s' p = Some M"
    then show "\<exists>c. mutator_cells s' (lm_mutatorAccess M) = Some c"
      using wf_access[OF wf, of p M] by (simp add: f)
  next
    fix h1 L1 p M
    assume a: "objs s' h1 = Some L1" "mutator_cells s' (m_mutator L1) = Some (Some p)"
       "mutators s' p = Some M"
    from old[OF a(1)] obtain h0 where "objs s h0 = Some L1" ..
    with a wf have "objs s (lm_mutator M) = Some L1"
      using wf_mutator[of s h0 L1 p M] by (simp add: f)
    then show "objs s' (lm_mutator M) = Some L1" using fr by (auto simp: f)
  qed
qed

lemma wf_borrow:
  assumes wf: "wf s" and b: "borrow h s = Returns n s'"
  shows "wf s'"
proof -
  from b obtain L where L: "objs s h = Some L"
    by (auto simp: borrow_def split: option.splits)
  from borrow_eq[OF L wf_refs[OF wf L]] b
  have s': "s' = s\<lparr>objs := (objs s)(brk s \<mapsto> L),
              ref_sets := (ref_sets s)(m_refs L \<mapsto> insert (brk s) {h'. objs s h' = Some L}),
              brk := Suc (brk s)\<rparr>" by simp
  show ?thesis by (rule wf_join[OF wf L]) (simp_all add: s')
qed

lemma move_owner:
  assumes "move h s = Returns n s'" "objs s h = Some L"
  shows "owner_cells s (m_owner L) = Some h"
proof (cases "owner_cells s (m_owner L)")
  case None
  with assms show ?thesis by (simp add: move_def owns_def)
next
  case (Some w)
  with assms show ?thesis by (cases "h = w") (simp_all add: move_def owns_def)
qed

lemma wf_move:
  assumes wf: "wf s" and b: "move h s = Returns n s'"
  shows "wf s'"
proof -
  from b obtain L where L: "objs s h = Some L"
    by (auto simp: move_def split: option.splits)
  note ow = move_owner[OF b L]
  from wf_bounds[OF wf L] have "h < brk s" by simp
  from move_eq[OF L wf_refs[OF wf L] ow this] b
  have s': "s' = s\<lparr>objs := (objs s)(brk s \<mapsto> L), owner_cells := (owner_cells s)(m_owner L \<mapsto> brk s),
              ref_sets := (ref_sets s)(m_refs L \<mapsto> insert (brk s) {h'. objs s h' = Some L}),
              brk := Suc (brk s)\<rparr>" by simp
  show ?thesis using ow by (intro wf_join[OF wf L]) (auto simp: s')
qed

lemmas op_defs = from_value_def borrow_def borrow_mutable_def move_def set_value_def get_def
  get_mutable_def is_mutator_def is_owner_def clone_def construct_def Lifetime_ctor_def
  take_mutability_def take_ownership_def owns_def may_write_def holds_mutator_def
  Lifetime_dtor_def release_mutator_def delete_LifetimeMutator_def returns_then_def
  empty_store_def store_after_def forget_def Let_def alloc_defs

lemma wf_from_value:
  assumes wf: "wf s" and b: "from_value v s = Returns n s'"
  shows "wf s'"
proof -
  define L0 where "L0 = \<lparr>m_T = brk s, m_owner = brk s + 3, m_mutex = brk s + 4,
     m_mutator = brk s + 2, m_refs = brk s + 5\<rparr>"
  from from_value_eq[of v s] b
  have f: "objs s' = (objs s)(Suc (brk s) \<mapsto> L0)" "vals s' = (vals s)(brk s \<mapsto> v)"
     "owner_cells s' = (owner_cells s)(brk s + 3 \<mapsto> Suc (brk s))"
     "mutator_cells s' = (mutator_cells s)(brk s + 2 \<mapsto> None)"
     "mutators s' = mutators s"
     "ref_sets s' = (ref_sets s)(brk s + 5 \<mapsto> {Suc (brk s)})"
     "brk s' = brk s + 6"
    by (auto simp: L0_def)
  have L0: "m_T L0 = brk s" "m_owner L0 = brk s + 3" "m_mutator L0 = brk s + 2" "m_refs L0 = brk s + 5"
    by (simp_all add: L0_def)
  have fr: "objs s (Suc (brk s)) = None" using wf by (simp add: wf_fresh)
  have old: "objs s h1 = Some L1" if "objs s' h1 = Some L1" "L1 \<noteq> L0" for h1 L1
    using that by (auto simp: f split: if_splits)
  have new: "h1 = Suc (brk s)" if "objs s' h1 = Some L0" for h1
  proof (rule ccontr)
    assume "h1 \<noteq> Suc (brk s)"
    with that have "objs s h1 = Some L0" by (simp add: f)
    from wf_bounds[OF wf this] show False by (simp add: L0)
  qed
  have mem0: "{h'. objs s' h' = Some L0} = {Suc (brk s)}"
  proof (rule set_eqI)
    fix x show "x \<in> {h'. objs s' h' = Some L0} \<longleftrightarrow> x \<in> {Suc (brk s)}"
      using new[of x] by (cases "x = Suc (brk s)") (auto simp: f)
  qed
  have mem: "{h'. objs s' h' = Some L1} = {h'. objs s h' = Some L1}" if "L1 \<noteq> L0" for L1
  proof (rule set_eqI)
    fix x show "x \<in> {h'. objs s' h' = Some L1} \<longleftrightarrow> x \<in> {h'. objs s h' = Some L1}"
      using that fr by (cases "x = Suc (brk s)") (simp_all add: f)
  qed
  show ?thesis
  proof (rule wfI)
    fix h1 L1 assume a: "objs s' h1 = Some L1"
    show "h1 < brk s' \<and> m_T L1 < brk s' \<and> m_owner L1 < brk s' \<and> m_mutator L1 < brk s' \<and> m_refs L1 < brk s'"
    proof (cases "L1 = L0")
      case True
      from a have "h1 = Suc (brk s)" unfolding True by (rule new)
      then show ?thesis unfolding True by (simp add: f(7) L0)
    next
      case False
      from wf_bounds[OF wf old[OF a False]] show ?thesis by (simp add: f(7))
    qed
    show "(\<exists>v. vals s' (m_T L1) = Some v) \<and> (\<exists>w. owner_cells s' (m_owner L1) = Some w) \<and>
        (\<exists>c. mutator_cells s' (m_mutator L1) = Some c) \<and>
        ref_sets s' (m_refs L1) = Some {h'. objs s' h' = Some L1}"
    proof (cases "L1 = L0")
      case True
      have "ref_sets s' (m_refs L0) = Some {h'. objs s' h' = Some L0}"
        by (simp only: mem0) (simp add: f(6) L0)
      then show ?thesis unfolding True by (simp add: f(2,3,4) L0)
    next
      case False
      note a' = old[OF a False]
      have "ref_sets s' (m_refs L1) = ref_sets s (m_refs L1)"
        using wf_bounds[OF wf a'] by (simp add: f(6))
      also have "\<dots> = Some {h'. objs s h' = Some L1}" by (rule wf_refs[OF wf a'])
      also have "\<dots> = Some {h'. objs s' h' = Some L1}" by (simp only: mem[OF False])
      finally have "ref_sets s' (m_refs L1) = Some {h'. objs s' h' = Some L1}" .
      moreover have "(\<exists>v. vals s' (m_T L1) = Some v) \<and> (\<exists>w. owner_cells s' (m_owner L1) = Some w) \<and>
        (\<exists>c. mutator_cells s' (m_mutator L1) = Some c)"
        using wf_live[OF wf a'] by (auto simp: f(2,3,4))
      ultimately show ?thesis by blast
    qed
  next
    fix c p assume "mutator_cells s' c = Some (Some p)"
    then show "p < brk s'" using wf_cell_bound[OF wf, of c p] by (auto simp: f split: if_splits)
  next
    fix h1 L1 h2 L2
    assume a: "objs s' h1 = Some L1" "objs s' h2 = Some L2"
      "m_T L1 = m_T L2 \<or> m_owner L1 = m_owner L2 \<or> m_mutator L1 = m_mutator L2 \<or> m_refs L1 = m_refs L2"
    show "L1 = L2"
    proof (cases "L1 = L0"; cases "L2 = L0")
      assume n: "L1 \<noteq> L0" "L2 \<noteq> L0"
      from wf_separate[OF wf old[OF a(1) n(1)] old[OF a(2) n(2)] a(3)] show ?thesis .
    next
      assume n: "L1 = L0" "L2 \<noteq> L0"
      from wf_bounds[OF wf old[OF a(2) n(2)]] a(3) show ?thesis by (auto simp: n L0)
    next
      assume n: "L1 \<noteq> L0" "L2 = L0"
      from wf_bounds[OF wf old[OF a(1) n(1)]] a(3) show ?thesis by (auto simp: n L0)
    qed simp
  next
    fix p M assume "mutators s' p = Some M"
    then show "\<exists>c. mutator_cells s' (lm_mutatorAccess M) = Some c"
      using wf_access[OF wf, of p M] by (auto simp: f)
  next
    fix h1 L1 p M
    assume a: "objs s' h1 = Some L1" "mutator_cells s' (m_mutator L1) = Some (Some p)"
       "mutators s' p = Some M"
    have n: "L1 \<noteq> L0" using a(2) by (auto simp: f L0)
    from wf_bounds[OF wf old[OF a(1) n]] a(2)
    have "mutator_cells s (m_mutator L1) = Some (Some p)" by (auto simp: f split: if_splits)
    from wf_mutator[OF wf old[OF a(1) n] this] a(3)
    have "objs s (lm_mutator M) = Some L1" by (simp add: f)
    then show "objs s' (lm_mutator M) = Some L1" using fr by (auto simp: f)
  qed
qed

lemma wf_borrow_mutable:
  assumes wf: "wf s" and b: "borrow_mutable h s = Returns n s'"
  shows "wf s'"
proof -
  from b obtain L where L: "objs s h = Some L"
    by (auto simp: borrow_mutable_def split: option.splits)
  from b L have c: "mutator_cells s (m_mutator L) = Some None"
    by (auto simp: borrow_mutable_def split: option.splits)
  note R = wf_refs[OF wf L]
  from borrow_mutable_eq[OF L R c] b
  have f: "objs s' = (objs s)(brk s \<mapsto> L)" "vals s' = vals s" "owner_cells s' = owner_cells s"
    "mutator_cells s' = (mutator_cells s)(Suc (Suc (brk s)) \<mapsto> Some (Suc (brk s)),
        m_mutator L \<mapsto> Some (Suc (brk s)))"
    "mutators s' = (mutators s)(Suc (brk s) \<mapsto>
        \<lparr>lm_mutator = brk s, lm_mutatorAccess = Suc (Suc (brk s))\<rparr>)"
    "ref_sets s' = (ref_sets s)(m_refs L \<mapsto> insert (brk s) {h'. objs s h' = Some L})"
    "brk s' = Suc (Suc (Suc (brk s)))"
    by auto
  have fr: "objs s (brk s) = None" using wf by (simp add: wf_fresh)
  have old: "\<exists>h0. objs s h0 = Some L1" if "objs s' h1 = Some L1" for h1 L1
    using that L by (auto simp: f split: if_splits)
  have mem: "{h'. objs s' h' = Some L1} =
       (if L1 = L then insert (brk s) {h'. objs s h' = Some L} else {h'. objs s h' = Some L1})" for L1
    using fr by (auto simp: f)
  show ?thesis
  proof (rule wfI)
    fix h1 L1 assume a: "objs s' h1 = Some L1"
    from old[OF a] obtain h0 where h0: "objs s h0 = Some L1" ..
    have "h1 \<le> brk s"
    proof (cases "h1 = brk s")
      case False
      with a have "objs s h1 = Some L1" by (simp add: f)
      from wf_bounds[OF wf this] show ?thesis by simp
    qed simp
    then show "h1 < brk s' \<and> m_T L1 < brk s' \<and> m_owner L1 < brk s' \<and> m_mutator L1 < brk s' \<and> m_refs L1 < brk s'"
      using wf_bounds[OF wf h0] by (simp add: f)
    have "L1 = L" if "m_refs L1 = m_refs L"
      using wf_separate[OF wf h0 L] that by simp
    moreover have "ref_sets s (m_refs L1) = Some {h'. objs s h' = Some L1}"
      by (rule wf_refs[OF wf h0])
    ultimately have "ref_sets s' (m_refs L1) = Some {h'. objs s' h' = Some L1}"
      by (auto simp: f(6) mem)
    then show "(\<exists>v. vals s' (m_T L1) = Some v) \<and> (\<exists>w. owner_cells s' (m_owner L1) = Some w) \<and>
        (\<exists>c. mutator_cells s' (m_mutator L1) = Some c) \<and>
        ref_sets s' (m_refs L1) = Some {h'. objs s' h' = Some L1}"
      using wf_live[OF wf h0] by (simp add: f)
  next
    fix c p assume "mutator_cells s' c = Some (Some p)"
    then show "p < brk s'" using wf_cell_bound[OF wf, of c p] by (auto simp: f split: if_splits)
  next
    fix h1 L1 h2 L2
    assume a: "objs s' h1 = Some L1" "objs s' h2 = Some L2"
      "m_T L1 = m_T L2 \<or> m_owner L1 = m_owner L2 \<or> m_mutator L1 = m_mutator L2 \<or> m_refs L1 = m_refs L2"
    from old[OF a(1)] old[OF a(2)] obtain h1' h2' where "objs s h1' = Some L1" "objs s h2' = Some L2"
      by blast
    then show "L1 = L2" using wf_separate[OF wf _ _ a(3)] by blast
  next
    fix p M assume "mutators s' p = Some M"
    then show "\<exists>c. mutator_cells s' (lm_mutatorAccess M) = Some c"
      using wf_access[OF wf, of p M] by (auto simp: f split: if_splits)
  next
    fix h1 L1 p M
    assume a: "objs s' h1 = Some L1" "mutator_cells s' (m_mutator L1) = Some (Some p)"
       "mutators s' p = Some M"
    from old[OF a(1)] obtain h0 where h0: "objs s h0 = Some L1" ..
    from wf_bounds[OF wf h0] have nb: "m_mutator L1 \<noteq> Suc (Suc (brk s))" by simp
    show "objs s' (lm_mutator M) = Some L1"
    proof (cases "m_mutator L1 = m_mutator L")
      case True
      with wf_separate[OF wf h0 L] have "L1 = L" by simp
      moreover from True a(2) have "p = Suc (brk s)" by (simp add: f)
      ultimately show ?thesis using a(3) by (auto simp: f)
    next
      case False
      with a(2) nb have c1: "mutator_cells s (m_mutator L1) = Some (Some p)" by (simp add: f)
      from wf_cell_bound[OF wf this] a(3) have "mutators s p = Some M" by (simp add: f)
      from wf_mutator[OF wf h0 c1 this] show ?thesis using fr by (auto simp: f)
    qed
  qed
qed

lemma wf_set_value:
  assumes wf: "wf s" and b: "set_value h v s = Returns u s'"
  shows "wf s'"
proof -
  from b obtain L where L: "objs s h = Some L"
    by (auto simp: set_value_def split: option.splits)
  have s': "s' = s\<lparr>vals := (vals s)(m_T L \<mapsto> v)\<rparr>"
    using b L by (auto simp: set_value_def split: option.splits sum.splits bool.splits)
  show ?thesis
  proof (rule wfI)
    fix h1 L1 assume a: "objs s' h1 = Some L1"
    then have a': "objs s h1 = Some L1" by (simp add: s')
    from wf_bounds[OF wf a']
    show "h1 < brk s' \<and> m_T L1 < brk s' \<and> m_owner L1 < brk s' \<and> m_mutator L1 < brk s' \<and> m_refs L1 < brk s'"
      by (simp add: s')
    from wf_live[OF wf a'] wf_refs[OF wf a']
    show "(\<exists>v. vals s' (m_T L1) = Some v) \<and> (\<exists>w. owner_cells s' (m_owner L1) = Some w) \<and>
        (\<exists>c. mutator_cells s' (m_mutator L1) = Some c) \<and>
        ref_sets s' (m_refs L1) = Some {h'. objs s' h' = Some L1}"
      by (simp add: s')
  next
    fix c p assume "mutator_cells s' c = Some (Some p)"
    then show "p < brk s'" using wf_cell_bound[OF wf, of c p] by (simp add: s')
  next
    fix h1 L1 h2 L2
    assume "objs s' h1 = Some L1" "objs s' h2 = Some L2"
      "m_T L1 = m_T L2 \<or> m_owner L1 = m_owner L2 \<or> m_mutator L1 = m_mutator L2 \<or> m_refs L1 = m_refs L2"
    then show "L1 = L2" using wf_separate[OF wf, of h1 L1 h2 L2] by (simp add: s')
  next
    fix p M assume "mutators s' p = Some M"
    then show "\<exists>c. mutator_cells s' (lm_mutatorAccess M) = Some c"
      using wf_access[OF wf, of p M] by (simp add: s')
  next
    fix h1 L1 p M
    assume "objs s' h1 = Some L1" "mutator_cells s' (m_mutator L1) = Some (Some p)"
       "mutators s' p = Some M"
    then show "objs s' (lm_mutator M) = Some L1"
      using wf_mutator[OF wf, of h1 L1 p M] by (simp add: s')
  qed
qed

lemma release_mutator_Inr:
  assumes "release_mutator h L s = Inr s1"
  shows "(s1 = s \<and> (\<forall>p M. mutator_cells s (m_mutator L) = Some (Some p) \<longrightarrow>
                          mutators s p = Some M \<longrightarrow> lm_mutator M \<noteq> h)) \<or>
         (\<exists>p M. mutator_cells s (m_mutator L) = Some (Some p) \<and> mutators s p = Some M \<and>
            lm_mutator M = h \<and>
            s1 = s\<lparr>mutator_cells := (mutator_cells s)(lm_mutatorAccess M \<mapsto> None),
                   mutators := (mutators s)(p := None)\<rparr>)"
proof (cases "mutator_cells s (m_mutator L)")
  case None
  with assms show ?thesis by (simp add: release_mutator_def)
next
  case (Some c)
  show ?thesis
  proof (cases c)
    case None
    with Some assms show ?thesis by (simp add: release_mutator_def)
  next
    case c: (Some p)
    show ?thesis
    proof (cases "mutators s p")
      case None
      with Some c assms show ?thesis by (simp add: release_mutator_def)
    next
      case M: (Some M)
      show ?thesis
      proof (cases "lm_mutator M = h")
        case False
        with Some c M assms show ?thesis by (simp add: release_mutator_def)
      next
        case True
        with Some c M assms have d: "delete_LifetimeMutator p s = Inr s1"
          by (simp add: release_mutator_def)
        then have eq: "s1 = s\<lparr>mutator_cells := (mutator_cells s)(lm_mutatorAccess M \<mapsto> None),
                   mutators := (mutators s)(p := None)\<rparr>"
          using M by (cases "mutator_cells s (lm_mutatorAccess M)")
            (simp_all add: delete_LifetimeMutator_def)
        have cp: "mutator_cells s (m_mutator L) = Some (Some p)" using Some c by simp
        show ?thesis
          by (rule disjI2, rule exI[of _ p], rule exI[of _ M], intro conjI)
             (rule cp, rule M, rule True, rule eq)
      qed
    qed
  qed
qed

lemma wf_released:
  assumes wf: "wf s" and M: "mutators s p = Some M"
    and s1: "s1 = s\<lparr>mutator_cells := (mutator_cells s)(lm_mutatorAccess M \<mapsto> None),
                   mutators := (mutators s)(p := None)\<rparr>"
  shows "wf s1"
proof -
  have f: "objs s1 = objs s" "vals s1 = vals s" "owner_cells s1 = owner_cells s"
    "ref_sets s1 = ref_sets s" "brk s1 = brk s"
    "mutator_cells s1 = (mutator_cells s)(lm_mutatorAccess M \<mapsto> None)"
    "mutators s1 = (mutators s)(p := None)"
    by (simp_all add: s1)
  show ?thesis
  proof (rule wfI)
    fix h1 L1 assume a: "objs s1 h1 = Some L1"
    then have a': "objs s h1 = Some L1" by (simp add: f)
    from wf_bounds[OF wf a']
    show "h1 < brk s1 \<and> m_T L1 < brk s1 \<and> m_owner L1 < brk s1 \<and> m_mutator L1 < brk s1 \<and> m_refs L1 < brk s1"
      by (simp add: f)
    from wf_live[OF wf a'] wf_refs[OF wf a']
    show "(\<exists>v. vals s1 (m_T L1) = Some v) \<and> (\<exists>w. owner_cells s1 (m_owner L1) = Some w) \<and>
        (\<exists>c. mutator_cells s1 (m_mutator L1) = Some c) \<and>
        ref_sets s1 (m_refs L1) = Some {h'. objs s1 h' = Some L1}"
      by (simp add: f)
  next
    fix c q assume "mutator_cells s1 c = Some (Some q)"
    then have "mutator_cells s c = Some (Some q)" by (simp add: f split: if_splits)
    from wf_cell_bound[OF wf this] show "q < brk s1" by (simp add: f)
  next
    fix h1 L1 h2 L2
    assume "objs s1 h1 = Some L1" "objs s1 h2 = Some L2"
      "m_T L1 = m_T L2 \<or> m_owner L1 = m_owner L2 \<or> m_mutator L1 = m_mutator L2 \<or> m_refs L1 = m_refs L2"
    then show "L1 = L2" using wf_separate[OF wf, of h1 L1 h2 L2] by (simp add: f)
  next
    fix q M' assume "mutators s1 q = Some M'"
    then have "mutators s q = Some M'" by (simp add: f split: if_splits)
    from wf_access[OF wf this]
    show "\<exists>c. mutator_cells s1 (lm_mutatorAccess M') = Some c" by (simp add: f)
  next
    fix h1 L1 q M'
    assume a: "objs s1 h1 = Some L1" "mutator_cells s1 (m_mutator L1) = Some (Some q)"
       "mutators s1 q = Some M'"
    from a(1) have 1: "objs s h1 = Some L1" by (simp add: f)
    from a(2) have 2: "mutator_cells s (m_mutator L1) = Some (Some q)"
      by (simp add: f split: if_splits)
    from a(3) have 3: "mutators s q = Some M'" by (simp add: f split: if_splits)
    from wf_mutator[OF wf 1 2 3] show "objs s1 (lm_mutator M') = Some L1" by (simp add: f)
  qed
qed

lemma wf_release_mutator:
  assumes wf: "wf s" and r: "release_mutator h L s = Inr s1"
  shows "wf s1 \<and> objs s1 = objs s \<and> vals s1 = vals s \<and> owner_cells s1 = owner_cells s \<and>
         ref_sets s1 = ref_sets s \<and> brk s1 = brk s \<and>
         (\<forall>p M. mutator_cells s1 (m_mutator L) = Some (Some p) \<longrightarrow>
                 mutators s1 p = Some M \<longrightarrow> lm_mutator M \<noteq> h)"
  using release_mutator_Inr[OF r]
proof (elim disjE exE conjE)
  assume "s1 = s" "\<forall>p M. mutator_cells s (m_mutator L) = Some (Some p) \<longrightarrow>
                          mutators s p = Some M \<longrightarrow> lm_mutator M \<noteq> h"
  with wf show ?thesis by simp
next
  fix p M
  assume a: "mutator_cells s (m_mutator L) = Some (Some p)" "mutators s p = Some M"
    "lm_mutator M = h"
    "s1 = s\<lparr>mutator_cells := (mutator_cells s)(lm_mutatorAccess M \<mapsto> None),
                   mutators := (mutators s)(p := None)\<rparr>"
  have 1: "wf s1" by (rule wf_released[OF wf a(2) a(4)])
  have 2: "objs s1 = objs s" "vals s1 = vals s" "owner_cells s1 = owner_cells s"
    "ref_sets s1 = ref_sets s" "brk s1 = brk s" "mutators s1 p = None"
    by (simp_all add: a(4))
  have 3: "q = p" if "mutator_cells s1 (m_mutator L) = Some (Some q)" for q
    using a(1) that by (simp add: a(4) split: if_splits)
  have "lm_mutator M' \<noteq> h"
    if "mutator_cells s1 (m_mutator L) = Some (Some q)" "mutators s1 q = Some M'" for q M'
    using 3[OF that(1)] that(2) 2(6) by simp
  with 1 2 show ?thesis by blast
qed

lemma Lifetime_dtor_eq:
  assumes L: "objs s h = Some L" and r: "release_mutator h L s = Inr s1"
    and R: "ref_sets s1 (m_refs L) = Some R" and w: "owner_cells s1 (m_owner L) = Some w"
    and v: "vals s1 (m_T L) = Some v"
  shows "Lifetime_dtor h s =
     (if R - {h} = {}
      then Returns ()
             (s1\<lparr>vals := (vals s1)(m_T L := None),
                 owner_cells := (owner_cells s1)(m_owner L := None),
                 ref_sets := (ref_sets s1)(m_refs L := None),
                 objs := (objs s1)(h := None)\<rparr>)
      else if h = w
      then Throws (runtime_error owner_freed)
             (s1\<lparr>ref_sets := (ref_sets s1)(m_refs L \<mapsto> R - {h}), objs := (objs s1)(h := None)\<rparr>)
      else Returns ()
             (s1\<lparr>ref_sets := (ref_sets s1)(m_refs L \<mapsto> R - {h}), objs := (objs s1)(h := None)\<rparr>))"
  using assms by (simp add: Lifetime_dtor_def Let_def)

lemma Lifetime_dtor_Undefined:
  assumes "objs s h = Some L" "release_mutator h L s = Inl f"
  shows "Lifetime_dtor h s = Undefined f"
  using assms by (simp add: Lifetime_dtor_def)

lemma wf_leave:
  assumes wf: "wf s1" and L: "objs s1 h = Some L"
    and rel: "\<And>p M. mutator_cells s1 (m_mutator L) = Some (Some p) \<Longrightarrow>
                 mutators s1 p = Some M \<Longrightarrow> lm_mutator M \<noteq> h"
    and f: "objs s' = (objs s1)(h := None)" "vals s' = vals s1"
      "owner_cells s' = owner_cells s1" "mutator_cells s' = mutator_cells s1"
      "mutators s' = mutators s1"
      "ref_sets s' = (ref_sets s1)(m_refs L \<mapsto> {h'. objs s1 h' = Some L} - {h})"
      "brk s' = brk s1"
  shows "wf s'"
proof -
  have old: "objs s1 h1 = Some L1 \<and> h1 \<noteq> h" if "objs s' h1 = Some L1" for h1 L1
    using that by (simp add: f(1) split: if_splits)
  have mem: "{h'. objs s' h' = Some L1} =
       (if L1 = L then {h'. objs s1 h' = Some L} - {h} else {h'. objs s1 h' = Some L1})" for L1
  proof (rule set_eqI)
    fix x
    show "x \<in> {h'. objs s' h' = Some L1} \<longleftrightarrow>
          x \<in> (if L1 = L then {h'. objs s1 h' = Some L} - {h} else {h'. objs s1 h' = Some L1})"
      using L by (cases "x = h") (auto simp: f(1))
  qed
  show ?thesis
  proof (rule wfI)
    fix h1 L1 assume a: "objs s' h1 = Some L1"
    from old[OF a] have a': "objs s1 h1 = Some L1" by simp
    from wf_bounds[OF wf a']
    show "h1 < brk s' \<and> m_T L1 < brk s' \<and> m_owner L1 < brk s' \<and> m_mutator L1 < brk s' \<and> m_refs L1 < brk s'"
      by (simp add: f(7))
    have "L1 = L" if "m_refs L1 = m_refs L"
      using wf_separate[OF wf a' L] that by simp
    moreover have "ref_sets s1 (m_refs L1) = Some {h'. objs s1 h' = Some L1}"
      by (rule wf_refs[OF wf a'])
    ultimately have "ref_sets s' (m_refs L1) = Some {h'. objs s' h' = Some L1}"
      by (auto simp: f(6) mem)
    then show "(\<exists>v. vals s' (m_T L1) = Some v) \<and> (\<exists>w. owner_cells s' (m_owner L1) = Some w) \<and>
        (\<exists>c. mutator_cells s' (m_mutator L1) = Some c) \<and>
        ref_sets s' (m_refs L1) = Some {h'. objs s' h' = Some L1}"
      using wf_live[OF wf a'] by (simp add: f(2,3,4))
  next
    fix c p assume "mutator_cells s' c = Some (Some p)"
    then show "p < brk s'" using wf_cell_bound[OF wf, of c p] by (simp add: f(4,7))
  next
    fix h1 L1 h2 L2
    assume a: "objs s' h1 = Some L1" "objs s' h2 = Some L2"
      "m_T L1 = m_T L2 \<or> m_owner L1 = m_owner L2 \<or> m_mutator L1 = m_mutator L2 \<or> m_refs L1 = m_refs L2"
    from old[OF a(1)] old[OF a(2)] have "objs s1 h1 = Some L1" "objs s1 h2 = Some L2" by simp_all
    from wf_separate[OF wf this a(3)] show "L1 = L2" .
  next
    fix p M assume "mutators s' p = Some M"
    then show "\<exists>c. mutator_cells s' (lm_mutatorAccess M) = Some c"
      using wf_access[OF wf, of p M] by (simp add: f(4,5))
  next
    fix h1 L1 p M
    assume a: "objs s' h1 = Some L1" "mutator_cells s' (m_mutator L1) = Some (Some p)"
       "mutators s' p = Some M"
    from old[OF a(1)] have a': "objs s1 h1 = Some L1" by simp
    from a(2) have c: "mutator_cells s1 (m_mutator L1) = Some (Some p)" by (simp add: f(4))
    from a(3) have m: "mutators s1 p = Some M" by (simp add: f(5))
    have 1: "objs s1 (lm_mutator M) = Some L1" by (rule wf_mutator[OF wf a' c m])
    have "lm_mutator M \<noteq> h"
    proof
      assume e: "lm_mutator M = h"
      with 1 L have "L1 = L" by simp
      with c m rel e show False by blast
    qed
    with 1 show "objs s' (lm_mutator M) = Some L1" by (simp add: f(1))
  qed
qed

lemma owners_leave:
  assumes wf: "wf s1" and ok: "owners_ok s1" and L: "objs s1 h = Some L"
    and no: "owner_cells s1 (m_owner L) \<noteq> Some h"
    and f: "objs s' = (objs s1)(h := None)" "owner_cells s' = owner_cells s1"
  shows "owners_ok s'"
  unfolding owners_ok_def
proof (intro allI impI)
  fix h1 L1 w assume a: "objs s' h1 = Some L1 \<and> owner_cells s' (m_owner L1) = Some w"
  then have a': "objs s1 h1 = Some L1" "owner_cells s1 (m_owner L1) = Some w"
    by (simp_all add: f split: if_splits)
  with ok have 1: "objs s1 w = Some L1" unfolding owners_ok_def by blast
  have "w \<noteq> h"
  proof
    assume "w = h"
    with 1 L have "L1 = L" by simp
    with a'(2) no \<open>w = h\<close> show False by simp
  qed
  with 1 show "objs s' w = Some L1" by (simp add: f)
qed

lemma wf_teardown:
  assumes wf: "wf s1" and L: "objs s1 h = Some L"
    and only: "{h'. objs s1 h' = Some L} - {h} = {}"
    and f: "objs s' = (objs s1)(h := None)" "vals s' = (vals s1)(m_T L := None)"
      "owner_cells s' = (owner_cells s1)(m_owner L := None)" "mutator_cells s' = mutator_cells s1"
      "mutators s' = mutators s1"
      "ref_sets s' = (ref_sets s1)(m_refs L := None)"
      "brk s' = brk s1"
  shows "wf s'"
proof -
  have old: "objs s1 h1 = Some L1 \<and> h1 \<noteq> h \<and> L1 \<noteq> L" if "objs s' h1 = Some L1" for h1 L1
  proof -
    from that have 1: "objs s1 h1 = Some L1" "h1 \<noteq> h" by (simp_all add: f(1) split: if_splits)
    have "L1 \<noteq> L"
    proof
      assume "L1 = L"
      with 1 have "h1 \<in> {h'. objs s1 h' = Some L} - {h}" by simp
      with only show False by blast
    qed
    with 1 show ?thesis by simp
  qed
  have mem: "{h'. objs s' h' = Some L1} = {h'. objs s1 h' = Some L1}" if "L1 \<noteq> L" for L1
  proof (rule set_eqI)
    fix x
    show "x \<in> {h'. objs s' h' = Some L1} \<longleftrightarrow> x \<in> {h'. objs s1 h' = Some L1}"
      using L that by (cases "x = h") (auto simp: f(1))
  qed
  show ?thesis
  proof (rule wfI)
    fix h1 L1 assume a: "objs s' h1 = Some L1"
    from old[OF a] have a': "objs s1 h1 = Some L1" and n: "L1 \<noteq> L" by simp_all
    from wf_bounds[OF wf a']
    show "h1 < brk s' \<and> m_T L1 < brk s' \<and> m_owner L1 < brk s' \<and> m_mutator L1 < brk s' \<and> m_refs L1 < brk s'"
      by (simp add: f(7))
    from wf_separate[OF wf a' L] n
    have d: "m_T L1 \<noteq> m_T L" "m_owner L1 \<noteq> m_owner L" "m_refs L1 \<noteq> m_refs L" by blast+
    have "ref_sets s' (m_refs L1) = ref_sets s1 (m_refs L1)" using d by (simp add: f(6))
    also have "\<dots> = Some {h'. objs s1 h' = Some L1}" by (rule wf_refs[OF wf a'])
    also have "\<dots> = Some {h'. objs s' h' = Some L1}" by (simp only: mem[OF n])
    finally have "ref_sets s' (m_refs L1) = Some {h'. objs s' h' = Some L1}" .
    then show "(\<exists>v. vals s' (m_T L1) = Some v) \<and> (\<exists>w. owner_cells s' (m_owner L1) = Some w) \<and>
        (\<exists>c. mutator_cells s' (m_mutator L1) = Some c) \<and>
        ref_sets s' (m_refs L1) = Some {h'. objs s' h' = Some L1}"
      using wf_live[OF wf a'] d by (simp add: f(2,3,4))
  next
    fix c p assume "mutator_cells s' c = Some (Some p)"
    then show "p < brk s'" using wf_cell_bound[OF wf, of c p] by (simp add: f(4,7))
  next
    fix h1 L1 h2 L2
    assume a: "objs s' h1 = Some L1" "objs s' h2 = Some L2"
      "m_T L1 = m_T L2 \<or> m_owner L1 = m_owner L2 \<or> m_mutator L1 = m_mutator L2 \<or> m_refs L1 = m_refs L2"
    from old[OF a(1)] old[OF a(2)] have "objs s1 h1 = Some L1" "objs s1 h2 = Some L2" by simp_all
    from wf_separate[OF wf this a(3)] show "L1 = L2" .
  next
    fix p M assume "mutators s' p = Some M"
    then show "\<exists>c. mutator_cells s' (lm_mutatorAccess M) = Some c"
      using wf_access[OF wf, of p M] by (simp add: f(4,5))
  next
    fix h1 L1 p M
    assume a: "objs s' h1 = Some L1" "mutator_cells s' (m_mutator L1) = Some (Some p)"
       "mutators s' p = Some M"
    from old[OF a(1)] have a': "objs s1 h1 = Some L1" and n: "L1 \<noteq> L" by simp_all
    from a(2) have c: "mutator_cells s1 (m_mutator L1) = Some (Some p)" by (simp add: f(4))
    from a(3) have m: "mutators s1 p = Some M" by (simp add: f(5))
    have 1: "objs s1 (lm_mutator M) = Some L1" by (rule wf_mutator[OF wf a' c m])
    with L n have "lm_mutator M \<noteq> h" by auto
    with 1 show "objs s' (lm_mutator M) = Some L1" by (simp add: f(1))
  qed
qed

lemma owners_teardown:
  assumes wf: "wf s1" and ok: "owners_ok s1" and L: "objs s1 h = Some L"
    and only: "{h'. objs s1 h' = Some L} - {h} = {}"
    and f: "objs s' = (objs s1)(h := None)" "owner_cells s' = (owner_cells s1)(m_owner L := None)"
  shows "owners_ok s'"
  unfolding owners_ok_def
proof (intro allI impI)
  fix h1 L1 w assume a: "objs s' h1 = Some L1 \<and> owner_cells s' (m_owner L1) = Some w"
  then have a': "objs s1 h1 = Some L1" "h1 \<noteq> h" "owner_cells s1 (m_owner L1) = Some w"
    by (simp_all add: f split: if_splits)
  have n: "L1 \<noteq> L"
  proof
    assume "L1 = L"
    with a' have "h1 \<in> {h'. objs s1 h' = Some L} - {h}" by simp
    with only show False by blast
  qed
  from a' ok have 1: "objs s1 w = Some L1" unfolding owners_ok_def by blast
  with L n have "w \<noteq> h" by auto
  with 1 show "objs s' w = Some L1" by (simp add: f)
qed

section \<open>The claims\<close>

text \<open>
  C10. When \<open>set\<close>, \<open>get_mutable\<close>, \<open>borrow_mutable\<close> or \<open>move()\<close> throws, the store it
  leaves is the store it was called on: the value, the owner cell, the mutator cell and
  the member set are untouched. (\<open>move(Lifetime&)\<close> has no instance to call.)
\<close>

theorem failed_call_leaves_store:
  "(set_value h v s = Throws e s' \<longrightarrow> s' = s) \<and>
   (get_mutable h s = Throws e s' \<longrightarrow> s' = s) \<and>
   (borrow_mutable h s = Throws e s' \<longrightarrow> s' = s) \<and>
   (move h s = Throws e s' \<longrightarrow> s' = s)"
proof (intro conjI impI)
  assume "set_value h v s = Throws e s'"
  then show "s' = s"
    by (auto simp: set_value_def split: option.splits sum.splits bool.splits)
next
  assume "get_mutable h s = Throws e s'"
  then show "s' = s"
    by (auto simp: get_mutable_def split: option.splits sum.splits bool.splits)
next
  assume "borrow_mutable h s = Throws e s'"
  then show "s' = s"
    by (auto simp: borrow_mutable_def construct_not_Throws split: option.splits)
next
  assume "move h s = Throws e s'"
  then show "s' = s"
    by (auto simp: move_def construct_not_Throws split: option.splits sum.splits bool.splits)
qed

theorem failed_call_leaves_store_witness:
  "(\<exists>s'. set_value 9 5 (store_after [From (1::int), BorrowMutable 1, Borrow 1])
            = Throws (runtime_error not_writable_set) s'
        \<and> s' = store_after [From 1, BorrowMutable 1, Borrow 1]) \<and>
   (\<exists>s'. get_mutable 9 (store_after [From (1::int), BorrowMutable 1, Borrow 1])
            = Throws (runtime_error not_writable_get) s'
        \<and> s' = store_after [From 1, BorrowMutable 1, Borrow 1]) \<and>
   (\<exists>s'. borrow_mutable 9 (store_after [From (1::int), BorrowMutable 1, Borrow 1])
            = Throws (runtime_error already_mutable) s'
        \<and> s' = store_after [From 1, BorrowMutable 1, Borrow 1]) \<and>
   (\<exists>s'. move 9 (store_after [From (1::int), BorrowMutable 1, Borrow 1])
            = Throws (runtime_error not_owner) s'
        \<and> s' = store_after [From 1, BorrowMutable 1, Borrow 1])"
proof -
  let ?S = "store_after [From (1::int), BorrowMutable 1, Borrow 1]"
  have 1: "\<exists>s'. set_value 9 5 ?S = Throws (runtime_error not_writable_set) s'"
    by (simp add: op_defs)
  have 2: "\<exists>s'. get_mutable 9 ?S = Throws (runtime_error not_writable_get) s'"
    by (simp add: op_defs)
  have 3: "\<exists>s'. borrow_mutable 9 ?S = Throws (runtime_error already_mutable) s'"
    by (simp add: op_defs)
  have 4: "\<exists>s'. move 9 ?S = Throws (runtime_error not_owner) s'"
    by (simp add: op_defs)
  show ?thesis
    using 1 2 3 4 failed_call_leaves_store[of 9 5 ?S] by blast
qed

text \<open>
  C9. \<open>is_mutator\<close> on a handle of a group whose mutator cell is null: the claim says it
  returns false. The code tests the pointer to the cell instead of the cell's contents,
  and reads \<open>m_mutator\<close> through the null pointer the cell holds. Shown on the handle
  \<open>from(1)\<close> returns.
\<close>

theorem is_mutator_null_deref:
  "returns_then (from_value (1::int) empty_store) (\<lambda>a s. is_mutator a s = Undefined NullDeref)"
  by (simp add: op_defs)

text \<open>
  C1. The claim: \<open>set\<close> and \<open>get_mutable\<close> succeed exactly for the owner and the
  current mutator. The code: the handle \<open>borrow_mutable\<close> returned is destroyed, which
  deletes its \<open>LifetimeMutator\<close> and sets to null the cell that object was constructed
  with, a cell of its own (line 49), not the group's mutator cell. The group's cell keeps
  the address of the deleted object, and the test of lines 118 and 134 reads
  \<open>m_mutator\<close> of that object: the owner's \<open>set\<close> and \<open>get_mutable\<close> are undefined
  behaviour.
\<close>

theorem owner_write_after_mutator_released:
  "returns_then (from_value (15::int) empty_store) (\<lambda>a s1.
     returns_then (borrow_mutable a s1) (\<lambda>m s2.
       returns_then (set_value m 20 s2) (\<lambda>u s3.
         returns_then (Lifetime_dtor m s3) (\<lambda>u s4.
           is_owner a s4 = Returns True s4 \<and>
           set_value a 15 s4 = Undefined UseAfterFree \<and>
           get_mutable a s4 = Undefined UseAfterFree))))"
  by (simp add: op_defs)

text \<open>
  C3. The claim: after a mutable borrow is acquired and its handle destroyed, the
  mutator slot is none again and a new \<open>borrow_mutable\<close> succeeds. The code: the group's
  mutator cell is not null after the destruction, and the next \<open>borrow_mutable\<close> throws.
\<close>

theorem mutator_cell_not_cleared:
  "returns_then (from_value (1::int) empty_store) (\<lambda>a s1.
     returns_then (borrow_mutable a s1) (\<lambda>m s2.
       returns_then (Lifetime_dtor m s2) (\<lambda>u s3.
         borrow_mutable a s3 = Throws (runtime_error already_mutable) s3)))"
  by (simp add: op_defs)

text \<open>
  C6. The claim: destroying the non-owner members first and the owner last raises no
  error and releases the group. The code: when one of the non-owner members held the
  mutable borrow, the owner's destructor reads the deleted \<open>LifetimeMutator\<close> in line 66.
\<close>

theorem owner_destroyed_after_mutator:
  "returns_then (from_value (1::int) empty_store) (\<lambda>a s1.
     returns_then (borrow_mutable a s1) (\<lambda>m s2.
       returns_then (Lifetime_dtor m s2) (\<lambda>u s3.
         Lifetime_dtor a s3 = Undefined UseAfterFree)))"
  by (simp add: op_defs)

text \<open>
  C4. The claim: \<open>move()\<close> clears the mutator slot when the moving owner holds it. The
  code: \<open>move()\<close> never writes the mutator cell. A handle built by the public constructor
  with \<open>force_take_mutability\<close> is owner and mutator of its group; after \<open>move()\<close> it is
  no longer the owner and is still the mutator: it can write, and the new owner cannot
  borrow mutably.
\<close>

theorem move_keeps_mutator:
  "(case new_T (1::int) empty_store of (child, s0) \<Rightarrow>
     returns_then (construct child None None None None False True s0) (\<lambda>h s1.
       is_owner h s1 = Returns True s1 \<and> is_mutator h s1 = Returns True s1 \<and>
       returns_then (move h s1) (\<lambda>n s2.
         is_owner n s2 = Returns True s2 \<and> is_owner h s2 = Returns False s2 \<and>
         is_mutator h s2 = Returns True s2 \<and>
         borrow_mutable n s2 = Throws (runtime_error already_mutable) s2 \<and>
         returns_then (set_value h 2 s2) (\<lambda>u s3. get n s3 = Returns 2 s3))))"
  by (simp add: op_defs)

end
